theory Spec2Isabelle
  imports Main "HOL-Library.Char_ord" "HOL-Library.List_Lexorder"
begin

section \<open>Python values\<close>

text \<open>
  The values that \<^verbatim>\<open>response.json()\<close> and \<^verbatim>\<open>json.loads\<close> produce: \<^verbatim>\<open>None\<close>,
  booleans, integers, strings, lists and dictionaries. Dictionary keys are hashable
  values, here the scalars. JSON numbers with a fraction (Python floats) are outside the
  model.
\<close>

datatype atom = ANone | ABool bool | AInt int | AStr string

datatype pyval = Atom atom | PList "pyval list" | PDict "(atom \<times> pyval) list"

datatype exn =
    RequestException string
  | TypeError string
  | AttributeError string
  | KeyError string
  | ValueError string
  | OverflowError string
  | JSONDecodeError string

fun is_request_exception :: "exn \<Rightarrow> bool" where
  "is_request_exception (RequestException m) = True"
| "is_request_exception e = False"

fun str_exn :: "exn \<Rightarrow> string" where
  "str_exn (RequestException m) = m"
| "str_exn (TypeError m) = m"
| "str_exn (AttributeError m) = m"
| "str_exn (KeyError m) = CHR 0x27 # m @ [CHR 0x27]"
| "str_exn (ValueError m) = m"
| "str_exn (OverflowError m) = m"
| "str_exn (JSONDecodeError m) = m"

definition ebind :: "'e + 'a \<Rightarrow> ('a \<Rightarrow> 'e + 'b) \<Rightarrow> 'e + 'b" where
  "ebind m f = (case m of Inl e \<Rightarrow> Inl e | Inr x \<Rightarrow> f x)"

lemma ebind_simps [simp]: "ebind (Inl e) f = Inl e" "ebind (Inr x) f = f x"
  by (simp_all add: ebind_def)

fun emap :: "('a \<Rightarrow> 'e + 'b) \<Rightarrow> 'a list \<Rightarrow> 'e + 'b list" where
  "emap f [] = Inr []"
| "emap f (x # xs) = ebind (f x) (\<lambda>y. ebind (emap f xs) (\<lambda>ys. Inr (y # ys)))"

text \<open>Truthiness, as \<^verbatim>\<open>if x:\<close> and \<^verbatim>\<open>not x\<close> test it.\<close>

fun truthy_atom :: "atom \<Rightarrow> bool" where
  "truthy_atom ANone = False"
| "truthy_atom (ABool b) = b"
| "truthy_atom (AInt n) = (n \<noteq> 0)"
| "truthy_atom (AStr s) = (s \<noteq> [])"

fun truthy :: "pyval \<Rightarrow> bool" where
  "truthy (Atom a) = truthy_atom a"
| "truthy (PList xs) = (xs \<noteq> [])"
| "truthy (PDict d) = (d \<noteq> [])"

text \<open>
  Dictionaries keep insertion order and compare keys with \<^verbatim>\<open>==\<close>, under which
  \<^verbatim>\<open>True == 1\<close> and \<^verbatim>\<open>False == 0\<close>.
\<close>

fun key_norm :: "atom \<Rightarrow> atom" where
  "key_norm (ABool b) = AInt (if b then 1 else 0)"
| "key_norm a = a"

definition key_eq :: "atom \<Rightarrow> atom \<Rightarrow> bool" where
  "key_eq a b = (key_norm a = key_norm b)"

fun dict_get :: "(atom \<times> 'v) list \<Rightarrow> atom \<Rightarrow> 'v option" where
  "dict_get [] k = None"
| "dict_get ((k', v) # d) k = (if key_eq k' k then Some v else dict_get d k)"

fun dict_set :: "(atom \<times> 'v) list \<Rightarrow> atom \<Rightarrow> 'v \<Rightarrow> (atom \<times> 'v) list" where
  "dict_set [] k v = [(k, v)]"
| "dict_set ((k', v') # d) k v =
     (if key_eq k' k then (k', v) # d else (k', v') # dict_set d k v)"

definition py_dict :: "(atom \<times> 'v) list \<Rightarrow> (atom \<times> 'v) list" where
  "py_dict kvs = foldl (\<lambda>d (k, v). dict_set d k v) [] kvs"

text \<open>Decimal rendering of integers, as f-strings and \<^verbatim>\<open>str\<close> produce it.\<close>

definition digit_char :: "nat \<Rightarrow> char" where
  "digit_char n = ''0123456789'' ! n"

fun str_nat :: "nat \<Rightarrow> string" where
  "str_nat n = (if n < 10 then [digit_char n] else str_nat (n div 10) @ [digit_char (n mod 10)])"

declare str_nat.simps [simp del]

definition str_int :: "int \<Rightarrow> string" where
  "str_int i = (if i < 0 then CHR ''-'' # str_nat (nat (- i)) else str_nat (nat i))"

text \<open>The operators the paginator applies to a decoded response.\<close>

fun startswith :: "string \<Rightarrow> string \<Rightarrow> bool" where
  "startswith s [] = True"
| "startswith [] (p # ps) = False"
| "startswith (c # s) (p # ps) = (c = p \<and> startswith s ps)"

fun substring_in :: "string \<Rightarrow> string \<Rightarrow> bool" where
  "substring_in p [] = (p = [])"
| "substring_in p (c # s) = (startswith (c # s) p \<or> substring_in p s)"

fun py_contains :: "string \<Rightarrow> pyval \<Rightarrow> exn + bool" where
  "py_contains k (PDict d) = Inr (dict_get d (AStr k) \<noteq> None)"
| "py_contains k (PList xs) = Inr (Atom (AStr k) \<in> set xs)"
| "py_contains k (Atom (AStr s)) = Inr (substring_in k s)"
| "py_contains k (Atom a) = Inl (TypeError ''argument is not iterable'')"

fun py_get :: "pyval \<Rightarrow> string \<Rightarrow> pyval \<Rightarrow> exn + pyval" where
  "py_get (PDict d) k dflt = Inr (case dict_get d (AStr k) of Some v \<Rightarrow> v | None \<Rightarrow> dflt)"
| "py_get v k dflt = Inl (AttributeError ''object has no attribute 'get' '')"

fun py_item :: "pyval \<Rightarrow> string \<Rightarrow> exn + pyval" where
  "py_item (PDict d) k = (case dict_get d (AStr k) of Some v \<Rightarrow> Inr v | None \<Rightarrow> Inl (KeyError k))"
| "py_item v k = Inl (TypeError ''indices must be integers'')"

fun py_iter :: "pyval \<Rightarrow> exn + pyval list" where
  "py_iter (PList xs) = Inr xs"
| "py_iter (PDict d) = Inr (map (\<lambda>kv. Atom (fst kv)) d)"
| "py_iter (Atom (AStr s)) = Inr (map (\<lambda>c. Atom (AStr [c])) s)"
| "py_iter (Atom a) = Inl (TypeError ''object is not iterable'')"

fun py_len :: "pyval \<Rightarrow> exn + nat" where
  "py_len (PList xs) = Inr (length xs)"
| "py_len (PDict d) = Inr (length d)"
| "py_len (Atom (AStr s)) = Inr (length s)"
| "py_len (Atom a) = Inl (TypeError ''object has no len()'')"

fun py_hash :: "pyval \<Rightarrow> exn + atom" where
  "py_hash (Atom a) = Inr a"
| "py_hash v = Inl (TypeError ''unhashable type'')"


section \<open>Configuration and the environment\<close>

text \<open>\<^verbatim>\<open>config/settings.py\<close>: the constants the retrieval code reads.\<close>

record config =
  PAGE_SIZE :: nat
  REQUEST_TIMEOUT :: nat
  RETRY_ATTEMPTS :: nat
  RETRY_DELAY :: nat

definition Config :: config where
  "Config = \<lparr>PAGE_SIZE = 5000, REQUEST_TIMEOUT = 30, RETRY_ATTEMPTS = 3, RETRY_DELAY = 1\<rparr>"

text \<open>
  What \<^verbatim>\<open>session.get\<close> does is the environment's choice: it returns a response or
  raises. \<^verbatim>\<open>response.json()\<close> may raise as well. The server is a function of the number
  of the call, the URL and the query parameters.
\<close>

record response =
  status_code :: int
  resp_text :: string
  resp_json :: "exn + pyval"

datatype outcome = Returns response | Raises exn

type_synonym params = "(atom \<times> pyval) list"

type_synonym server = "nat \<Rightarrow> string \<Rightarrow> params \<Rightarrow> outcome"

datatype level = INFO | WARNING | ERROR

text \<open>
  Everything the code does to the outside is an event of the trace, in order: each GET,
  each \<^verbatim>\<open>time.sleep\<close> (in milliseconds), each log record and each page (a dictionary) the
  generator yields.
\<close>

datatype event =
    Get string params nat
  | Sleep nat
  | Log level string
  | Yield pyval

record world =
  calls :: nat
  trace :: "event list"

definition emit :: "event \<Rightarrow> world \<Rightarrow> world" where
  "emit e w = w\<lparr>trace := trace w @ [e]\<rparr>"

definition sleep_seconds :: "nat \<Rightarrow> world \<Rightarrow> world" where
  "sleep_seconds s w = emit (Sleep (1000 * s)) w"

definition session_get :: "server \<Rightarrow> string \<Rightarrow> params \<Rightarrow> nat \<Rightarrow> world \<Rightarrow> outcome \<times> world" where
  "session_get srv url ps timeout w =
     (srv (calls w) url ps, emit (Get url ps timeout) (w\<lparr>calls := calls w + 1\<rparr>))"

section \<open>The retrying fetcher: \<^verbatim>\<open>SearchAfterPaginator._make_request\<close>\<close>

datatype attempt_result = Return "exn + pyval" | Continue

text \<open>The \<^verbatim>\<open>except requests.RequestException\<close> clause; any other exception propagates.\<close>

definition on_exception :: "config \<Rightarrow> nat \<Rightarrow> exn \<Rightarrow> world \<Rightarrow> attempt_result \<times> world" where
  "on_exception cfg attempt e w =
     (if is_request_exception e then
        (if int attempt < int (RETRY_ATTEMPTS cfg) - 1 then
           (let wait_time = (attempt + 1) * RETRY_DELAY cfg;
                w1 = emit (Log WARNING (''Request failed, retrying in '' @ str_nat wait_time
                                         @ ''s: '' @ str_exn e)) w;
                w2 = sleep_seconds wait_time w1
            in (Continue, w2))
         else
           (Return (Inr (Atom ANone)),
            emit (Log ERROR (''Request failed after '' @ str_nat (RETRY_ATTEMPTS cfg)
                             @ '' attempts: '' @ str_exn e)) w))
      else (Return (Inl e), w))"

text \<open>One pass through the body of \<^verbatim>\<open>for attempt in range(Config.RETRY_ATTEMPTS)\<close>.\<close>

definition attempt_body :: "server \<Rightarrow> config \<Rightarrow> string \<Rightarrow> params \<Rightarrow> nat \<Rightarrow> world
                              \<Rightarrow> attempt_result \<times> world" where
  "attempt_body srv cfg url ps attempt w =
     (case session_get srv url ps (REQUEST_TIMEOUT cfg) w of
        (Raises e, w1) \<Rightarrow> on_exception cfg attempt e w1
      | (Returns r, w1) \<Rightarrow>
          (if status_code r = 200 then
             (case resp_json r of
                Inr v \<Rightarrow> (Return (Inr v), w1)
              | Inl e \<Rightarrow> on_exception cfg attempt e w1)
           else if status_code r = 429 then
             (let wait_time = (attempt + 1) * RETRY_DELAY cfg;
                  w2 = emit (Log WARNING (''Rate limited, waiting '' @ str_nat wait_time
                                           @ ''s before retry'')) w1;
                  w3 = sleep_seconds wait_time w2
              in (Continue, w3))
           else
             (Return (Inr (Atom ANone)),
              emit (Log ERROR (''API error '' @ str_int (status_code r) @ '': '' @ resp_text r)) w1)))"

fun attempts :: "server \<Rightarrow> config \<Rightarrow> string \<Rightarrow> params \<Rightarrow> nat list \<Rightarrow> world
                   \<Rightarrow> (exn + pyval) \<times> world" where
  "attempts srv cfg url ps [] w = (Inr (Atom ANone), w)"
| "attempts srv cfg url ps (attempt # rest) w =
     (case attempt_body srv cfg url ps attempt w of
        (Return r, w1) \<Rightarrow> (r, w1)
      | (Continue, w1) \<Rightarrow> attempts srv cfg url ps rest w1)"

definition make_request :: "server \<Rightarrow> config \<Rightarrow> string \<Rightarrow> string \<Rightarrow> params \<Rightarrow> world
                              \<Rightarrow> (exn + pyval) \<times> world" where
  "make_request srv cfg base_url endpoint ps w =
     (let url = base_url @ ''/'' @ endpoint
      in attempts srv cfg url ps [0 ..< RETRY_ATTEMPTS cfg] w)"


section \<open>The cursor paginator: \<^verbatim>\<open>SearchAfterPaginator.paginate\<close>\<close>

text \<open>\<^verbatim>\<open>dict(zip(columns, row))\<close>: both arguments are iterated, each key is hashed.\<close>

definition dict_zip :: "pyval \<Rightarrow> pyval \<Rightarrow> exn + pyval" where
  "dict_zip columns row =
     ebind (py_iter columns) (\<lambda>cs.
     ebind (py_iter row) (\<lambda>vs.
     ebind (emap (\<lambda>(c, v). ebind (py_hash c) (\<lambda>k. Inr (k, v))) (zip cs vs)) (\<lambda>kvs.
     Inr (PDict (py_dict kvs)))))"

text \<open>
  Lines 35 to 44 of \<^verbatim>\<open>pagination.py\<close>: the record batch of a response, from its
  \<^verbatim>\<open>data\<close> field or from \<^verbatim>\<open>column-names\<close> and \<^verbatim>\<open>rows\<close>.
\<close>

definition normalize_response :: "pyval \<Rightarrow> exn + pyval" where
  "normalize_response response =
     ebind (py_contains ''data'' response) (\<lambda>has_data.
       if has_data then py_get response ''data'' (PList [])
       else
         ebind (py_contains ''rows'' response) (\<lambda>has_rows.
         ebind (if has_rows then py_contains ''column-names'' response else Inr False) (\<lambda>columnar.
           if columnar then
             ebind (py_item response ''column-names'') (\<lambda>columns.
             ebind (py_item response ''rows'') (\<lambda>rows.
             ebind (py_iter rows) (\<lambda>rs.
             ebind (emap (dict_zip columns) rs) (\<lambda>recs.
             Inr (PList recs)))))
           else Inr (PList []))))"

record pstate =
  search_after :: pyval
  page_count :: nat
  total_records :: nat

datatype control = Break | Next

definition page_dict :: "pyval \<Rightarrow> nat \<Rightarrow> nat \<Rightarrow> nat \<Rightarrow> pyval" where
  "page_dict d pc n tot =
     PDict [(AStr ''data'', d),
            (AStr ''page'', Atom (AInt (int pc))),
            (AStr ''page_size'', Atom (AInt (int n))),
            (AStr ''total_retrieved'', Atom (AInt (int tot)))]"

text \<open>
  Lines 21 to 26: the parameters of one page request. The cursor is sent only when it
  is truthy.
\<close>

definition page_params :: "config \<Rightarrow> params \<Rightarrow> string \<Rightarrow> pyval \<Rightarrow> params" where
  "page_params cfg ps search_after_key sa =
     (let page_params = (if truthy sa then dict_set ps (AStr search_after_key) sa else ps)
      in dict_set page_params (AStr ''size'') (Atom (AInt (int (PAGE_SIZE cfg)))))"

text \<open>The body of the \<^verbatim>\<open>try\<close> block of one cycle of \<^verbatim>\<open>while True\<close>.\<close>

definition try_body :: "server \<Rightarrow> config \<Rightarrow> string \<Rightarrow> string \<Rightarrow> params \<Rightarrow> string
                          \<Rightarrow> pstate \<Rightarrow> world \<Rightarrow> (exn + control) \<times> pstate \<times> world" where
  "try_body srv cfg base_url endpoint ps search_after_key st w =
     (case make_request srv cfg base_url endpoint
             (page_params cfg ps search_after_key (search_after st)) w of
           (Inl e, w1) \<Rightarrow> (Inl e, st, w1)
         | (Inr response, w1) \<Rightarrow>
             if \<not> truthy response then
               (Inr Break, st,
                emit (Log WARNING (''No response received for page '' @ str_nat (page_count st + 1))) w1)
             else
               (case normalize_response response of
                  Inl e \<Rightarrow> (Inl e, st, w1)
                | Inr d \<Rightarrow>
                    if \<not> truthy d then
                      (Inr Break, st,
                       emit (Log INFO (''No more data available after '' @ str_nat (page_count st)
                                       @ '' pages'')) w1)
                    else
                      (let st1 = st\<lparr>page_count := page_count st + 1\<rparr>
                       in case py_len d of
                            Inl e \<Rightarrow> (Inl e, st1, w1)
                          | Inr n \<Rightarrow>
                              (let st2 = st1\<lparr>total_records := total_records st1 + n\<rparr>;
                                   w2 = emit (Log INFO (''Page '' @ str_nat (page_count st2)
                                              @ '': Retrieved '' @ str_nat n @ '' records (total: ''
                                              @ str_nat (total_records st2) @ '')'')) w1;
                                   w3 = emit (Yield (page_dict d (page_count st2) n (total_records st2))) w2
                               in case py_get response ''next-search-after'' (Atom ANone) of
                                    Inl e \<Rightarrow> (Inl e, st2, w3)
                                  | Inr sa \<Rightarrow>
                                      (let st3 = st2\<lparr>search_after := sa\<rparr>
                                       in if \<not> truthy sa then
                                            (Inr Break, st3,
                                             emit (Log INFO (''Pagination complete: ''
                                                   @ str_nat (total_records st3) @ '' total records'')) w3)
                                          else (Inr Next, st3, emit (Sleep 100) w3))))))"

text \<open>One cycle: the \<^verbatim>\<open>try\<close> block with its \<^verbatim>\<open>except Exception\<close> clause.\<close>

definition cycle :: "server \<Rightarrow> config \<Rightarrow> string \<Rightarrow> string \<Rightarrow> params \<Rightarrow> string
                       \<Rightarrow> pstate \<times> world \<Rightarrow> control \<times> pstate \<times> world" where
  "cycle srv cfg base_url endpoint ps search_after_key sw =
     (case try_body srv cfg base_url endpoint ps search_after_key (fst sw) (snd sw) of
        (Inr c, st1, w1) \<Rightarrow> (c, st1, w1)
      | (Inl e, st1, w1) \<Rightarrow>
          (Break, st1,
           emit (Log ERROR (''Error on page '' @ str_nat (page_count st1 + 1) @ '': '' @ str_exn e)) w1))"

text \<open>
  \<^verbatim>\<open>while True\<close> has no bound of its own, so the loop is a partial function: \<open>None\<close>
  is a run that never leaves the loop.
\<close>

partial_function (option) paginate_loop :: "server \<Rightarrow> config \<Rightarrow> string \<Rightarrow> string \<Rightarrow> params \<Rightarrow> string
                       \<Rightarrow> pstate \<times> world \<Rightarrow> (pstate \<times> world) option" where
  [code]: "paginate_loop srv cfg base_url endpoint ps search_after_key sw =
     (case cycle srv cfg base_url endpoint ps search_after_key sw of
        (c, sw1) \<Rightarrow> if c = Break then Some sw1
                    else paginate_loop srv cfg base_url endpoint ps search_after_key sw1)"

definition initial :: pstate where
  "initial = \<lparr>search_after = Atom ANone, page_count = 0, total_records = 0\<rparr>"

definition paginate :: "server \<Rightarrow> config \<Rightarrow> string \<Rightarrow> string \<Rightarrow> params \<Rightarrow> string \<Rightarrow> world
                          \<Rightarrow> world option" where
  "paginate srv cfg base_url endpoint ps search_after_key w =
     map_option snd (paginate_loop srv cfg base_url endpoint ps search_after_key (initial, w))"

fun pages :: "event list \<Rightarrow> pyval list" where
  "pages [] = []"
| "pages (Yield p # es) = p # pages es"
| "pages (e # es) = pages es"

fun gets :: "event list \<Rightarrow> (string \<times> params) list" where
  "gets [] = []"
| "gets (Get url ps t # es) = (url, ps) # gets es"
| "gets (e # es) = gets es"

fun sleeps :: "event list \<Rightarrow> nat list" where
  "sleeps [] = []"
| "sleeps (Sleep ms # es) = ms # sleeps es"
| "sleeps (e # es) = sleeps es"

section \<open>Traces and servers used in the statements\<close>

text \<open>The events of one rate-limited attempt: the GET, the warning, the wait.\<close>

definition rate_limited_events :: "config \<Rightarrow> string \<Rightarrow> params \<Rightarrow> nat \<Rightarrow> event list" where
  "rate_limited_events cfg url ps attempt =
     [Get url ps (REQUEST_TIMEOUT cfg),
      Log WARNING (''Rate limited, waiting '' @ str_nat ((attempt + 1) * RETRY_DELAY cfg)
                   @ ''s before retry''),
      Sleep (1000 * ((attempt + 1) * RETRY_DELAY cfg))]"

definition no_json :: "exn + pyval" where
  "no_json = Inl (ValueError ''Expecting value'')"

definition always_429 :: server where
  "always_429 n url ps =
     Returns \<lparr>status_code = 429, resp_text = ''Too Many Requests'', resp_json = no_json\<rparr>"

definition always_503 :: server where
  "always_503 n url ps =
     Returns \<lparr>status_code = 503, resp_text = ''Service Unavailable'', resp_json = no_json\<rparr>"

definition w0 :: world where
  "w0 = \<lparr>calls = 0, trace = []\<rparr>"

text \<open>
  The page a response leads to (its record batch and the batch's length), when it leads
  to one, and the cursor it carries.
\<close>

definition page_of_response :: "pyval \<Rightarrow> (pyval \<times> nat) option" where
  "page_of_response resp =
     (if truthy resp then
        (case normalize_response resp of
           Inl e \<Rightarrow> None
         | Inr d \<Rightarrow> if truthy d then (case py_len d of Inl e \<Rightarrow> None | Inr n \<Rightarrow> Some (d, n))
                    else None)
      else None)"

definition token_of :: "pyval \<Rightarrow> pyval" where
  "token_of resp = (case py_get resp ''next-search-after'' (Atom ANone) of
                      Inl e \<Rightarrow> Atom ANone | Inr sa \<Rightarrow> sa)"

fun expected_pages :: "nat \<Rightarrow> nat \<Rightarrow> pyval list \<Rightarrow> pyval list" where
  "expected_pages pc tot [] = []"
| "expected_pages pc tot (r # rs) =
     (case page_of_response r of
        None \<Rightarrow> []
      | Some (d, n) \<Rightarrow> page_dict d (pc + 1) n (tot + n) # expected_pages (pc + 1) (tot + n) rs)"

text \<open>A server that answers every request with one record and a cursor.\<close>

definition more_response :: pyval where
  "more_response = PDict [(AStr ''data'', PList [PDict [(AStr ''lmk-key'', Atom (AStr ''k''))]]),
                          (AStr ''next-search-after'', Atom (AStr ''t''))]"

definition always_more :: server where
  "always_more n url ps = Returns \<lparr>status_code = 200, resp_text = [], resp_json = Inr more_response\<rparr>"

text \<open>A server that answers the \<open>n\<close>-th request with the \<open>n\<close>-th response of a script.\<close>

definition scripted :: "pyval list \<Rightarrow> server" where
  "scripted rs n url ps =
     (if n < length rs then Returns \<lparr>status_code = 200, resp_text = [], resp_json = Inr (rs ! n)\<rparr>
      else Returns \<lparr>status_code = 500, resp_text = ''script exhausted'', resp_json = no_json\<rparr>)"

text \<open>The state and the events of a cycle that yields the page \<open>(d, n)\<close>.\<close>

definition after_page :: "pstate \<Rightarrow> nat \<Rightarrow> pyval \<Rightarrow> pstate" where
  "after_page st n sa =
     \<lparr>search_after = sa, page_count = page_count st + 1, total_records = total_records st + n\<rparr>"

definition page_events :: "pstate \<Rightarrow> pyval \<Rightarrow> nat \<Rightarrow> event list" where
  "page_events st d n =
     [Log INFO (''Page '' @ str_nat (page_count st + 1) @ '': Retrieved '' @ str_nat n
                @ '' records (total: '' @ str_nat (total_records st + n) @ '')''),
      Yield (page_dict d (page_count st + 1) n (total_records st + n))]"

definition complete_event :: "pstate \<Rightarrow> nat \<Rightarrow> event" where
  "complete_event st n =
     Log INFO (''Pagination complete: '' @ str_nat (total_records st + n) @ '' total records'')"

definition add_events :: "event list \<Rightarrow> world \<Rightarrow> world" where
  "add_events es w = w\<lparr>trace := trace w @ es\<rparr>"

text \<open>Two scripts: a page with a cursor followed by a page without, and an empty first page.\<close>

definition first_page :: pyval where
  "first_page = PDict [(AStr ''data'', PList [PDict [(AStr ''lmk-key'', Atom (AStr ''k1''))]]),
                       (AStr ''next-search-after'', Atom (AStr ''t1''))]"

definition final_page :: pyval where
  "final_page = PDict [(AStr ''data'', PList [PDict [(AStr ''lmk-key'', Atom (AStr ''k2''))]])]"

definition empty_page :: pyval where
  "empty_page = PDict [(AStr ''data'', PList []), (AStr ''next-search-after'', Atom (AStr ''t1''))]"

definition falsy_token_page :: pyval where
  "falsy_token_page = PDict [(AStr ''data'', PList [PDict [(AStr ''lmk-key'', Atom (AStr ''k1''))]]),
                             (AStr ''next-search-after'', Atom (AStr []))]"

section \<open>Properties of the retrying fetcher\<close>

lemma sleeps_append: "sleeps (xs @ ys) = sleeps xs @ sleeps ys"
  by (induction xs rule: sleeps.induct) auto

lemma gets_append: "gets (xs @ ys) = gets xs @ gets ys"
  by (induction xs rule: gets.induct) auto

lemma pages_append: "pages (xs @ ys) = pages xs @ pages ys"
  by (induction xs rule: pages.induct) auto

lemma attempt_body_other:
  assumes "srv (calls w) url ps = Returns r" "status_code r \<noteq> 200" "status_code r \<noteq> 429"
  shows "attempt_body srv cfg url ps a w =
     (Return (Inr (Atom ANone)),
      \<lparr>calls = calls w + 1,
       trace = trace w @ [Get url ps (REQUEST_TIMEOUT cfg),
                          Log ERROR (''API error '' @ str_int (status_code r) @ '': '' @ resp_text r)]\<rparr>)"
  using assms by (simp add: attempt_body_def session_get_def emit_def)

lemma attempt_body_429:
  assumes "srv (calls w) url ps = Returns r" "status_code r = 429"
  shows "attempt_body srv cfg url ps a w =
     (Continue, \<lparr>calls = calls w + 1, trace = trace w @ rate_limited_events cfg url ps a\<rparr>)"
  using assms
  by (simp add: attempt_body_def session_get_def emit_def sleep_seconds_def rate_limited_events_def)

lemma attempts_all_429:
  assumes "\<forall>n < length as. \<exists>r. srv (calls w + n) url ps = Returns r \<and> status_code r = 429"
  shows "attempts srv cfg url ps as w =
     (Inr (Atom ANone),
      \<lparr>calls = calls w + length as,
       trace = trace w @ concat (map (rate_limited_events cfg url ps) as)\<rparr>)"
  using assms
proof (induction as arbitrary: w)
  case Nil
  then show ?case by simp
next
  case (Cons a as)
  have "0 < length (a # as)" by simp
  with Cons.prems have "\<exists>r. srv (calls w + 0) url ps = Returns r \<and> status_code r = 429"
    by blast
  then obtain r where r: "srv (calls w) url ps = Returns r" "status_code r = 429"
    by auto
  let ?w1 = "\<lparr>calls = calls w + 1, trace = trace w @ rate_limited_events cfg url ps a\<rparr>"
  have "\<forall>n < length as. \<exists>r. srv (calls ?w1 + n) url ps = Returns r \<and> status_code r = 429"
  proof (intro allI impI)
    fix n assume "n < length as"
    then have "Suc n < length (a # as)" by simp
    with Cons.prems have "\<exists>r. srv (calls w + Suc n) url ps = Returns r \<and> status_code r = 429"
      by blast
    then show "\<exists>r. srv (calls ?w1 + n) url ps = Returns r \<and> status_code r = 429"
      by simp
  qed
  then have IH: "attempts srv cfg url ps as ?w1 =
     (Inr (Atom ANone),
      \<lparr>calls = calls ?w1 + length as,
       trace = trace ?w1 @ concat (map (rate_limited_events cfg url ps) as)\<rparr>)"
    by (rule Cons.IH)
  have "attempts srv cfg url ps (a # as) w = attempts srv cfg url ps as ?w1"
    using r by (simp add: attempt_body_429 [where r = r])
  also note IH
  finally show ?case by simp
qed

lemma sleeps_rate_limited:
  "sleeps (concat (map (rate_limited_events cfg url ps) as))
     = map (\<lambda>a. 1000 * ((a + 1) * RETRY_DELAY cfg)) as"
  by (induction as) (auto simp: rate_limited_events_def)

lemma gets_rate_limited:
  "gets (concat (map (rate_limited_events cfg url ps) as)) = map (\<lambda>a. (url, ps)) as"
  by (induction as) (auto simp: rate_limited_events_def)

text \<open>
  Claim C3. When every attempt of a request is answered with HTTP 429, the fetcher makes
  \<open>RETRY_ATTEMPTS\<close> GETs (three with the shipped configuration), sleeps
  \<open>attempt * RETRY_DELAY\<close> seconds after the attempt numbered \<open>attempt\<close> (counted from
  one), hence before each retry, and then returns \<^verbatim>\<open>None\<close> to the caller; no exception
  leaves the function. The trace is given event by event; sleeps are in milliseconds.
\<close>

theorem fetch_rate_limited:
  assumes "\<forall>n < RETRY_ATTEMPTS cfg.
             \<exists>r. srv (calls w + n) (base_url @ ''/'' @ endpoint) ps = Returns r \<and> status_code r = 429"
  shows "make_request srv cfg base_url endpoint ps w =
           (Inr (Atom ANone),
            \<lparr>calls = calls w + RETRY_ATTEMPTS cfg,
             trace = trace w @ concat (map (rate_limited_events cfg (base_url @ ''/'' @ endpoint) ps)
                                           [0 ..< RETRY_ATTEMPTS cfg])\<rparr>)
       \<and> sleeps (concat (map (rate_limited_events cfg (base_url @ ''/'' @ endpoint) ps)
                              [0 ..< RETRY_ATTEMPTS cfg]))
           = map (\<lambda>attempt. 1000 * ((attempt + 1) * RETRY_DELAY cfg)) [0 ..< RETRY_ATTEMPTS cfg]
       \<and> length (gets (concat (map (rate_limited_events cfg (base_url @ ''/'' @ endpoint) ps)
                                    [0 ..< RETRY_ATTEMPTS cfg]))) = RETRY_ATTEMPTS cfg"
proof -
  have "attempts srv cfg (base_url @ ''/'' @ endpoint) ps [0 ..< RETRY_ATTEMPTS cfg] w =
     (Inr (Atom ANone),
      \<lparr>calls = calls w + length [0 ..< RETRY_ATTEMPTS cfg],
       trace = trace w @ concat (map (rate_limited_events cfg (base_url @ ''/'' @ endpoint) ps)
                                     [0 ..< RETRY_ATTEMPTS cfg])\<rparr>)"
    by (rule attempts_all_429) (use assms in simp)
  then show ?thesis
    by (simp add: make_request_def sleeps_rate_limited gets_rate_limited)
qed

theorem fetch_rate_limited_witness:
  "make_request always_429 Config ''https://epc'' ''domestic/search'' [] w0
     = (Inr (Atom ANone),
        \<lparr>calls = 3,
         trace = [Get ''https://epc/domestic/search'' [] 30,
                  Log WARNING ''Rate limited, waiting 1s before retry'', Sleep 1000,
                  Get ''https://epc/domestic/search'' [] 30,
                  Log WARNING ''Rate limited, waiting 2s before retry'', Sleep 2000,
                  Get ''https://epc/domestic/search'' [] 30,
                  Log WARNING ''Rate limited, waiting 3s before retry'', Sleep 3000]\<rparr>)"
proof -
  have h: "\<forall>n < RETRY_ATTEMPTS Config.
             \<exists>r. always_429 (calls w0 + n) (''https://epc'' @ ''/'' @ ''domestic/search'') [] = Returns r
                  \<and> status_code r = 429"
    by (simp add: always_429_def)
  show ?thesis
    using h fetch_rate_limited [where srv = always_429 and cfg = Config and w = w0 and ps = "[]"
                                  and base_url = "''https://epc''" and endpoint = "''domestic/search''"]
    by (simp add: Config_def w0_def rate_limited_events_def upt_rec str_nat.simps digit_char_def)
qed

text \<open>
  Claim C4. When the first response to a request has a status other than 200 and 429, the
  fetcher returns \<^verbatim>\<open>None\<close> after that one GET: the trace grows by the GET and by one
  error record holding the status and the response body, and by no sleep and no second GET.
\<close>

theorem fetch_other_status:
  assumes "0 < RETRY_ATTEMPTS cfg"
      and "srv (calls w) (base_url @ ''/'' @ endpoint) ps = Returns r"
      and "status_code r \<noteq> 200" and "status_code r \<noteq> 429"
  shows "make_request srv cfg base_url endpoint ps w =
     (Inr (Atom ANone),
      \<lparr>calls = calls w + 1,
       trace = trace w @ [Get (base_url @ ''/'' @ endpoint) ps (REQUEST_TIMEOUT cfg),
                          Log ERROR (''API error '' @ str_int (status_code r) @ '': '' @ resp_text r)]\<rparr>)"
proof -
  from assms(1) obtain rest where "[0 ..< RETRY_ATTEMPTS cfg] = 0 # rest"
    by (auto simp: upt_conv_Cons)
  then show ?thesis
    using assms(2-4)
    by (simp add: make_request_def attempt_body_other [where r = r])
qed

theorem fetch_other_status_witness:
  "make_request always_503 Config ''https://epc'' ''domestic/search'' [] w0
     = (Inr (Atom ANone),
        \<lparr>calls = 1,
         trace = [Get ''https://epc/domestic/search'' [] 30,
                  Log ERROR ''API error 503: Service Unavailable'']\<rparr>)"
proof -
  have h1: "0 < RETRY_ATTEMPTS Config" by (simp add: Config_def)
  have h2: "always_503 (calls w0) (''https://epc'' @ ''/'' @ ''domestic/search'') []
              = Returns \<lparr>status_code = 503, resp_text = ''Service Unavailable'', resp_json = no_json\<rparr>"
    by (simp add: always_503_def)
  show ?thesis
    using h1 h2 fetch_other_status [where srv = always_503 and cfg = Config and w = w0 and ps = "[]"
                    and base_url = "''https://epc''" and endpoint = "''domestic/search''"
                    and r = "\<lparr>status_code = 503, resp_text = ''Service Unavailable'', resp_json = no_json\<rparr>"]
    by (simp add: Config_def w0_def str_int_def str_nat.simps digit_char_def)
qed

section \<open>Properties of the paginator\<close>

lemma emap_hash_atoms:
  "emap (\<lambda>(c, v). ebind (py_hash c) (\<lambda>k. Inr (k, v))) (zip (map Atom cols) vs) = Inr (zip cols vs)"
proof (induction cols arbitrary: vs)
  case Nil
  then show ?case by simp
next
  case (Cons c cols)
  then show ?case by (cases vs) simp_all
qed

lemma dict_zip_atoms:
  "dict_zip (PList (map Atom cols)) (PList vs) = Inr (PDict (py_dict (zip cols vs)))"
  by (simp add: dict_zip_def emap_hash_atoms)

lemma emap_dict_zip:
  "emap (dict_zip (PList (map Atom cols))) (map PList rows)
     = Inr (map (\<lambda>vs. PDict (py_dict (zip cols vs))) rows)"
  by (induction rows) (simp_all add: dict_zip_atoms)

lemma dict_set_fresh:
  "key_norm k \<notin> key_norm ` fst ` set d \<Longrightarrow> dict_set d k v = d @ [(k, v)]"
  by (induction d) (auto simp: key_eq_def)

lemma foldl_dict_set_distinct:
  "distinct (map (\<lambda>kv. key_norm (fst kv)) (acc @ kvs))
     \<Longrightarrow> foldl (\<lambda>d (k, v). dict_set d k v) acc kvs = acc @ kvs"
proof (induction kvs arbitrary: acc)
  case Nil
  then show ?case by simp
next
  case (Cons kv kvs)
  obtain k v where kv: "kv = (k, v)" by (cases kv)
  from Cons.prems have fresh: "key_norm k \<notin> key_norm ` fst ` set acc"
    by (auto simp: kv)
  from Cons.prems have "distinct (map (\<lambda>kv. key_norm (fst kv)) ((acc @ [(k, v)]) @ kvs))"
    by (simp add: kv)
  then have "foldl (\<lambda>d (k, v). dict_set d k v) (acc @ [(k, v)]) kvs = (acc @ [(k, v)]) @ kvs"
    by (rule Cons.IH)
  then show ?case by (simp add: kv dict_set_fresh [OF fresh])
qed

lemma py_dict_zip_distinct:
  assumes "distinct (map key_norm cols)"
  shows "py_dict (zip cols vs) = zip cols vs"
proof -
  have "distinct (map (\<lambda>kv. key_norm (fst kv)) (zip cols vs))"
    using assms
  proof (induction cols arbitrary: vs)
    case Nil
    then show ?case by simp
  next
    case (Cons c cols)
    show ?case
    proof (cases vs)
      case Nil
      then show ?thesis by simp
    next
      case (Cons v vs')
      have "key_norm c \<notin> (\<lambda>kv. key_norm (fst kv)) ` set (zip cols vs')"
        using Cons.prems by (auto dest!: set_zip_leftD)
      then show ?thesis using Cons Cons.IH [of vs'] Cons.prems by simp
    qed
  qed
  then show ?thesis
    using foldl_dict_set_distinct [of "[]" "zip cols vs"] by (simp add: py_dict_def)
qed

lemma normalize_response_data:
  "dict_get d (AStr ''data'') = Some v \<Longrightarrow> normalize_response (PDict d) = Inr v"
  by (simp add: normalize_response_def)

lemma normalize_response_columnar:
  assumes "dict_get d (AStr ''data'') = None"
      and "dict_get d (AStr ''column-names'') = Some (PList (map Atom cols))"
      and "dict_get d (AStr ''rows'') = Some (PList (map PList rows))"
  shows "normalize_response (PDict d) = Inr (PList (map (\<lambda>vs. PDict (py_dict (zip cols vs))) rows))"
  using assms by (simp add: normalize_response_def emap_dict_zip)

lemma normalize_response_neither:
  assumes "py_contains ''data'' resp = Inr False"
      and "py_contains ''rows'' resp = Inr False \<or> py_contains ''column-names'' resp = Inr False"
  shows "normalize_response resp = Inr (PList [])"
proof (cases resp)
  case (Atom a)
  with assms show ?thesis by (cases a) (auto simp: normalize_response_def)
next
  case (PList xs)
  with assms show ?thesis by (auto simp: normalize_response_def)
next
  case (PDict d)
  with assms show ?thesis by (auto simp: normalize_response_def)
qed

text \<open>
  Claim C1. The record batch of a response. A response with a \<^verbatim>\<open>data\<close> field gives
  that field. A response without it, with \<^verbatim>\<open>column-names\<close> and \<^verbatim>\<open>rows\<close>, gives one
  dictionary per row, built from the pairs of column name and row value in order; so it
  gives the batch that the same records under \<^verbatim>\<open>data\<close> give. With distinct column
  names the dictionary is the list of those pairs, in order. A response that lacks
  \<^verbatim>\<open>data\<close> and lacks one of \<^verbatim>\<open>rows\<close> and \<^verbatim>\<open>column-names\<close> gives the empty batch.
\<close>

theorem normalize_response_shapes:
  "(dict_get d (AStr ''data'') = Some v \<longrightarrow> normalize_response (PDict d) = Inr v)
 \<and> (dict_get d (AStr ''data'') = None
      \<and> dict_get d (AStr ''column-names'') = Some (PList (map Atom cols))
      \<and> dict_get d (AStr ''rows'') = Some (PList (map PList rows))
    \<longrightarrow> normalize_response (PDict d) = Inr (PList (map (\<lambda>vs. PDict (py_dict (zip cols vs))) rows))
      \<and> (\<forall>d'. dict_get d' (AStr ''data'') = Some (PList (map (\<lambda>vs. PDict (py_dict (zip cols vs))) rows))
            \<longrightarrow> normalize_response (PDict d') = normalize_response (PDict d))
      \<and> (distinct (map key_norm cols)
            \<longrightarrow> normalize_response (PDict d) = Inr (PList (map (\<lambda>vs. PDict (zip cols vs)) rows))))
 \<and> (py_contains ''data'' resp = Inr False
      \<and> (py_contains ''rows'' resp = Inr False \<or> py_contains ''column-names'' resp = Inr False)
    \<longrightarrow> normalize_response resp = Inr (PList []))"
proof (intro conjI impI allI)
  assume "dict_get d (AStr ''data'') = Some v"
  then show "normalize_response (PDict d) = Inr v" by (rule normalize_response_data)
next
  assume h: "dict_get d (AStr ''data'') = None
      \<and> dict_get d (AStr ''column-names'') = Some (PList (map Atom cols))
      \<and> dict_get d (AStr ''rows'') = Some (PList (map PList rows))"
  then show c: "normalize_response (PDict d) = Inr (PList (map (\<lambda>vs. PDict (py_dict (zip cols vs))) rows))"
    by (simp add: normalize_response_columnar)
  {
    fix d'
    assume "dict_get d' (AStr ''data'') = Some (PList (map (\<lambda>vs. PDict (py_dict (zip cols vs))) rows))"
    then show "normalize_response (PDict d') = normalize_response (PDict d)"
      by (simp add: c normalize_response_data)
  }
  assume "distinct (map key_norm cols)"
  then show "normalize_response (PDict d) = Inr (PList (map (\<lambda>vs. PDict (zip cols vs)) rows))"
    by (simp add: c py_dict_zip_distinct)
next
  assume "py_contains ''data'' resp = Inr False
      \<and> (py_contains ''rows'' resp = Inr False \<or> py_contains ''column-names'' resp = Inr False)"
  then show "normalize_response resp = Inr (PList [])"
    by (simp add: normalize_response_neither)
qed

theorem normalize_response_shapes_witness:
  "normalize_response (PDict [(AStr ''data'', PList [PDict [(AStr ''a'', Atom (AInt 1)), (AStr ''b'', Atom (AInt 2))]])])
     = Inr (PList [PDict [(AStr ''a'', Atom (AInt 1)), (AStr ''b'', Atom (AInt 2))]])
 \<and> normalize_response (PDict [(AStr ''column-names'', PList [Atom (AStr ''a''), Atom (AStr ''b'')]),
                              (AStr ''rows'', PList [PList [Atom (AInt 1), Atom (AInt 2)]])])
     = Inr (PList [PDict [(AStr ''a'', Atom (AInt 1)), (AStr ''b'', Atom (AInt 2))]])
 \<and> normalize_response (PDict [(AStr ''column-names'', PList [Atom (AStr ''a''), Atom (AStr ''b'')])])
     = Inr (PList [])"
proof -
  let ?recs = "PList [PDict [(AStr ''a'', Atom (AInt 1)), (AStr ''b'', Atom (AInt 2))]]"
  let ?d1 = "[(AStr ''data'', ?recs)]"
  let ?d2 = "[(AStr ''column-names'', PList [Atom (AStr ''a''), Atom (AStr ''b'')]),
              (AStr ''rows'', PList [PList [Atom (AInt 1), Atom (AInt 2)]])]"
  let ?d3 = "[(AStr ''column-names'', PList [Atom (AStr ''a''), Atom (AStr ''b'')])]"
  note t = normalize_response_shapes
             [of ?d2 "Atom ANone" "[AStr ''a'', AStr ''b'']" "[[Atom (AInt 1), Atom (AInt 2)]]" "PDict ?d3"]
  have h2: "dict_get ?d2 (AStr ''data'') = None
      \<and> dict_get ?d2 (AStr ''column-names'') = Some (PList (map Atom [AStr ''a'', AStr ''b'']))
      \<and> dict_get ?d2 (AStr ''rows'') = Some (PList (map PList [[Atom (AInt 1), Atom (AInt 2)]]))"
    by (simp add: key_eq_def)
  have h2d: "distinct (map key_norm [AStr ''a'', AStr ''b''])" by simp
  have h3: "py_contains ''data'' (PDict ?d3) = Inr False
      \<and> (py_contains ''rows'' (PDict ?d3) = Inr False \<or> py_contains ''column-names'' (PDict ?d3) = Inr False)"
    by (simp add: key_eq_def)
  from t h2 h2d have c2: "normalize_response (PDict ?d2)
      = Inr (PList (map (\<lambda>vs. PDict (zip [AStr ''a'', AStr ''b''] vs)) [[Atom (AInt 1), Atom (AInt 2)]]))"
    by blast
  have h1: "dict_get ?d1 (AStr ''data'')
      = Some (PList (map (\<lambda>vs. PDict (py_dict (zip [AStr ''a'', AStr ''b''] vs))) [[Atom (AInt 1), Atom (AInt 2)]]))"
    by (simp add: key_eq_def py_dict_def)
  from t h2 h1 have c1: "normalize_response (PDict ?d1) = normalize_response (PDict ?d2)"
    by blast
  from t h3 have c3: "normalize_response (PDict ?d3) = Inr (PList [])"
    by blast
  from c2 have c2': "normalize_response (PDict ?d2) = Inr ?recs" by simp
  from c1 c2' c3 show ?thesis by simp
qed

lemma cycle_fetch_raises:
  assumes "make_request srv cfg base_url endpoint (page_params cfg ps key (search_after st)) w = (Inl e, w1)"
  shows "cycle srv cfg base_url endpoint ps key (st, w)
           = (Break, st, add_events [Log ERROR (''Error on page '' @ str_nat (page_count st + 1) @ '': '' @ str_exn e)] w1)"
  using assms by (simp add: cycle_def try_body_def add_events_def emit_def)

lemma cycle_no_response:
  assumes "make_request srv cfg base_url endpoint (page_params cfg ps key (search_after st)) w = (Inr resp, w1)"
      and "\<not> truthy resp"
  shows "cycle srv cfg base_url endpoint ps key (st, w)
           = (Break, st, add_events [Log WARNING (''No response received for page '' @ str_nat (page_count st + 1))] w1)"
  using assms by (simp add: cycle_def try_body_def add_events_def emit_def)

lemma cycle_empty_batch:
  assumes "make_request srv cfg base_url endpoint (page_params cfg ps key (search_after st)) w = (Inr resp, w1)"
      and "truthy resp" and "normalize_response resp = Inr d" and "\<not> truthy d"
  shows "cycle srv cfg base_url endpoint ps key (st, w)
           = (Break, st, add_events [Log INFO (''No more data available after '' @ str_nat (page_count st) @ '' pages'')] w1)"
  using assms by (simp add: cycle_def try_body_def add_events_def emit_def)

lemma page_of_response_dict:
  assumes "page_of_response resp = Some (d, n)"
  shows "\<exists>dd. resp = PDict dd"
proof (cases resp)
  case (Atom a)
  with assms show ?thesis
    by (cases a) (auto simp: page_of_response_def normalize_response_def split: if_splits sum.splits)
next
  case (PList xs)
  with assms show ?thesis
    by (auto simp: page_of_response_def normalize_response_def split: if_splits sum.splits)
next
  case (PDict dd)
  then show ?thesis by simp
qed

lemma page_of_response_SomeD:
  assumes "page_of_response resp = Some (d, n)"
  shows "truthy resp \<and> normalize_response resp = Inr d \<and> truthy d \<and> py_len d = Inr n
         \<and> py_get resp ''next-search-after'' (Atom ANone) = Inr (token_of resp)"
proof -
  from page_of_response_dict [OF assms] obtain dd where "resp = PDict dd" by blast
  with assms show ?thesis
    by (auto simp: page_of_response_def token_of_def split: if_splits sum.splits)
qed

lemma cycle_page:
  assumes "make_request srv cfg base_url endpoint (page_params cfg ps key (search_after st)) w = (Inr resp, w1)"
      and "page_of_response resp = Some (d, n)"
  shows "cycle srv cfg base_url endpoint ps key (st, w)
           = (if truthy (token_of resp)
              then (Next, after_page st n (token_of resp), add_events (page_events st d n @ [Sleep 100]) w1)
              else (Break, after_page st n (token_of resp),
                    add_events (page_events st d n @ [complete_event st n]) w1))"
  using assms(1) page_of_response_SomeD [OF assms(2)]
  by (simp add: cycle_def try_body_def add_events_def emit_def after_page_def page_events_def
                complete_event_def Let_def)


lemma fetch_200:
  assumes "0 < RETRY_ATTEMPTS cfg"
      and "srv (calls w) (base_url @ ''/'' @ endpoint) ps = Returns r"
      and "status_code r = 200" and "resp_json r = Inr v"
  shows "make_request srv cfg base_url endpoint ps w
           = (Inr v, \<lparr>calls = calls w + 1,
                      trace = trace w @ [Get (base_url @ ''/'' @ endpoint) ps (REQUEST_TIMEOUT cfg)]\<rparr>)"
proof -
  from assms(1) obtain rest where "[0 ..< RETRY_ATTEMPTS cfg] = 0 # rest"
    by (auto simp: upt_conv_Cons)
  then show ?thesis
    using assms(2-4)
    by (simp add: make_request_def attempt_body_def session_get_def emit_def)
qed

lemma paginate_loop_Break:
  "cycle srv cfg base_url endpoint ps key sw = (Break, sw1)
     \<Longrightarrow> paginate_loop srv cfg base_url endpoint ps key sw = Some sw1"
  by (subst paginate_loop.simps) simp

lemma paginate_loop_Next:
  "cycle srv cfg base_url endpoint ps key sw = (Next, sw1)
     \<Longrightarrow> paginate_loop srv cfg base_url endpoint ps key sw
           = paginate_loop srv cfg base_url endpoint ps key sw1"
  by (subst paginate_loop.simps) simp

lemma page_of_more_response:
  "page_of_response more_response
     = Some (PList [PDict [(AStr ''lmk-key'', Atom (AStr ''k''))]], 1)"
  by (simp add: page_of_response_def more_response_def normalize_response_def key_eq_def)

lemma token_of_more_response: "token_of more_response = Atom (AStr ''t'')"
  by (simp add: token_of_def more_response_def key_eq_def)

lemma cycle_always_more:
  assumes "0 < RETRY_ATTEMPTS cfg"
  shows "fst (cycle always_more cfg base_url endpoint ps key sw) = Next"
proof -
  obtain st w where sw: "sw = (st, w)" by (cases sw)
  let ?pp = "page_params cfg ps key (search_after st)"
  have "make_request always_more cfg base_url endpoint ?pp w
          = (Inr more_response,
             \<lparr>calls = calls w + 1,
              trace = trace w @ [Get (base_url @ ''/'' @ endpoint) ?pp (REQUEST_TIMEOUT cfg)]\<rparr>)"
    by (rule fetch_200 [OF assms, where r = "\<lparr>status_code = 200, resp_text = [], resp_json = Inr more_response\<rparr>"])
       (simp_all add: always_more_def)
  from cycle_page [OF this page_of_more_response] show ?thesis
    by (simp add: sw token_of_more_response)
qed

lemma always_more_never_returns:
  assumes "paginate_loop srv cfg base_url endpoint ps key sw = Some y"
  shows "\<not> (srv = always_more \<and> 0 < RETRY_ATTEMPTS cfg)"
proof (rule paginate_loop.raw_induct
         [where P = "\<lambda>srv cfg base_url endpoint ps key sw y.
                       \<not> (srv = always_more \<and> 0 < RETRY_ATTEMPTS cfg)", OF _ assms])
  fix f srv' cfg' base_url' endpoint' ps' key' sw' y'
  assume IH: "\<And>srv cfg base_url endpoint ps key sw y.
                f srv cfg base_url endpoint ps key sw = Some y
                \<Longrightarrow> \<not> (srv = always_more \<and> 0 < RETRY_ATTEMPTS cfg)"
     and step: "(case cycle srv' cfg' base_url' endpoint' ps' key' sw' of
                   (c, sw1) \<Rightarrow> if c = Break then Some sw1
                               else f srv' cfg' base_url' endpoint' ps' key' sw1) = Some y'"
  show "\<not> (srv' = always_more \<and> 0 < RETRY_ATTEMPTS cfg')"
  proof
    assume a: "srv' = always_more \<and> 0 < RETRY_ATTEMPTS cfg'"
    obtain c sw1 where c: "cycle srv' cfg' base_url' endpoint' ps' key' sw' = (c, sw1)"
      by (cases "cycle srv' cfg' base_url' endpoint' ps' key' sw'")
    with a cycle_always_more [of cfg' base_url' endpoint' ps' key' sw'] have "c = Next" by simp
    with step c have "f srv' cfg' base_url' endpoint' ps' key' sw1 = Some y'" by simp
    then have "\<not> (srv' = always_more \<and> 0 < RETRY_ATTEMPTS cfg')" by (rule IH)
    with a show False by simp
  qed
qed

lemma attempt_body_pages:
  "attempt_body srv cfg url ps a w = (res, w1) \<Longrightarrow> pages (trace w1) = pages (trace w)"
  by (auto simp: attempt_body_def session_get_def on_exception_def emit_def sleep_seconds_def
                 pages_append Let_def
           split: outcome.splits if_splits sum.splits)

lemma attempts_pages:
  "attempts srv cfg url ps as w = (res, w1) \<Longrightarrow> pages (trace w1) = pages (trace w)"
proof (induction as arbitrary: w)
  case Nil
  then show ?case by simp
next
  case (Cons a as)
  obtain r w2 where b: "attempt_body srv cfg url ps a w = (r, w2)"
    by (cases "attempt_body srv cfg url ps a w")
  from attempt_body_pages [OF b] have p: "pages (trace w2) = pages (trace w)" .
  show ?case
  proof (cases r)
    case (Return x)
    with Cons.prems b p show ?thesis by simp
  next
    case Continue
    with Cons.prems b have "attempts srv cfg url ps as w2 = (res, w1)" by simp
    from Cons.IH [OF this] p show ?thesis by simp
  qed
qed

lemma make_request_pages:
  "make_request srv cfg base_url endpoint ps w = (res, w1) \<Longrightarrow> pages (trace w1) = pages (trace w)"
  by (simp add: make_request_def attempts_pages)

lemma pages_add_events: "pages (trace (add_events es w)) = pages (trace w) @ pages es"
  by (simp add: add_events_def pages_append)

lemma calls_add_events [simp]: "calls (add_events es w) = calls w"
  by (simp add: add_events_def)

lemma pages_page_events [simp]:
  "pages (page_events st d n) = [page_dict d (page_count st + 1) n (total_records st + n)]"
  by (simp add: page_events_def)

lemma run_script:
  assumes att: "0 < RETRY_ATTEMPTS cfg"
      and "\<forall>i < length rs. \<forall>ps'. \<exists>r. srv (calls w + i) (base_url @ ''/'' @ endpoint) ps' = Returns r
                                       \<and> status_code r = 200 \<and> resp_json r = Inr (rs ! i)"
      and "\<forall>r \<in> set rs. page_of_response r \<noteq> None"
      and "rs \<noteq> []"
      and "\<forall>r \<in> set (butlast rs). truthy (token_of r)"
      and "\<not> truthy (token_of (last rs))"
  shows "\<exists>st' w'. paginate_loop srv cfg base_url endpoint ps key (st, w) = Some (st', w')
             \<and> calls w' = calls w + length rs
             \<and> pages (trace w') = pages (trace w) @ expected_pages (page_count st) (total_records st) rs
             \<and> length (expected_pages (page_count st) (total_records st) rs) = length rs"
  using assms(2-)
proof (induction rs arbitrary: st w)
  case Nil
  then show ?case by simp
next
  case (Cons r rs)
  let ?pp = "page_params cfg ps key (search_after st)"
  let ?w1 = "\<lparr>calls = calls w + 1,
              trace = trace w @ [Get (base_url @ ''/'' @ endpoint) ?pp (REQUEST_TIMEOUT cfg)]\<rparr>"
  have "0 < length (r # rs)" by simp
  with Cons.prems(1) have "\<exists>r'. srv (calls w + 0) (base_url @ ''/'' @ endpoint) ?pp = Returns r'
                                \<and> status_code r' = 200 \<and> resp_json r' = Inr ((r # rs) ! 0)"
    by blast
  then obtain r' where r': "srv (calls w) (base_url @ ''/'' @ endpoint) ?pp = Returns r'"
                           "status_code r' = 200" "resp_json r' = Inr r"
    by auto
  have fetch: "make_request srv cfg base_url endpoint ?pp w = (Inr r, ?w1)"
    using att r' by (rule fetch_200 [where srv = srv and w = w and r = r'])
  from Cons.prems(2) obtain d n where dn: "page_of_response r = Some (d, n)" by auto
  note cyc = cycle_page [OF fetch dn]
  show ?case
  proof (cases rs)
    case Nil
    with Cons.prems(5) have "\<not> truthy (token_of r)" by simp
    with cyc have "paginate_loop srv cfg base_url endpoint ps key (st, w)
                     = Some (after_page st n (token_of r),
                             add_events (page_events st d n @ [complete_event st n]) ?w1)"
      by (simp add: paginate_loop_Break)
    then show ?thesis
      by (simp add: Nil dn pages_add_events pages_append complete_event_def)
  next
    case (Cons r2 rs2)
    let ?st2 = "after_page st n (token_of r)"
    let ?w2 = "add_events (page_events st d n @ [Sleep 100]) ?w1"
    from Cons Cons.prems(4) have "truthy (token_of r)" by simp
    with cyc have step: "paginate_loop srv cfg base_url endpoint ps key (st, w)
                     = paginate_loop srv cfg base_url endpoint ps key (?st2, ?w2)"
      by (simp add: paginate_loop_Next)
    have p1: "\<forall>i < length rs. \<forall>ps'. \<exists>r. srv (calls ?w2 + i) (base_url @ ''/'' @ endpoint) ps' = Returns r
                                       \<and> status_code r = 200 \<and> resp_json r = Inr (rs ! i)"
    proof (intro allI impI)
      fix i ps' assume "i < length rs"
      then have "Suc i < length (r # rs)" by simp
      with Cons.prems(1) have "\<exists>r'. srv (calls w + Suc i) (base_url @ ''/'' @ endpoint) ps' = Returns r'
                                \<and> status_code r' = 200 \<and> resp_json r' = Inr ((r # rs) ! Suc i)"
        by blast
      then show "\<exists>r. srv (calls ?w2 + i) (base_url @ ''/'' @ endpoint) ps' = Returns r
                                       \<and> status_code r = 200 \<and> resp_json r = Inr (rs ! i)"
        by simp
    qed
    have p2: "\<forall>r \<in> set rs. page_of_response r \<noteq> None" using Cons.prems(2) by simp
    have p3: "rs \<noteq> []" using Cons by simp
    have p4: "\<forall>r \<in> set (butlast rs). truthy (token_of r)" using Cons.prems(4) Cons by simp
    have p5: "\<not> truthy (token_of (last rs))" using Cons.prems(5) Cons by simp
    have "\<exists>st' w'. paginate_loop srv cfg base_url endpoint ps key (?st2, ?w2) = Some (st', w')
             \<and> calls w' = calls ?w2 + length rs
             \<and> pages (trace w') = pages (trace ?w2) @ expected_pages (page_count ?st2) (total_records ?st2) rs
             \<and> length (expected_pages (page_count ?st2) (total_records ?st2) rs) = length rs"
      by (rule Cons.IH) (fact p1 p2 p3 p4 p5)+
    then obtain st' w' where
      r: "paginate_loop srv cfg base_url endpoint ps key (?st2, ?w2) = Some (st', w')"
         "calls w' = calls ?w2 + length rs"
         "pages (trace w') = pages (trace ?w2) @ expected_pages (page_count ?st2) (total_records ?st2) rs"
         "length (expected_pages (page_count ?st2) (total_records ?st2) rs) = length rs"
      by blast
    show ?thesis
      using step r by (simp add: dn pages_add_events pages_append after_page_def)
  qed
qed

end
